theory Spec2Isabelle
  imports Main
begin

section \<open>Strings as Python sees them\<close>

text \<open>
  A Python \<open>str\<close> is a sequence of code points. The model reads a \<open>char\<close> as one code
  point below 256 (the Latin-1 range, which holds the middle dot \<open>U+00B7\<close> of one of the
  option styles), so \<open>length\<close> counts what Python's \<open>len\<close> counts. The character
  classes below are the ones CPython uses on that range.
\<close>

abbreviation NL :: char where
  "NL \<equiv> CHR 0x0A"

abbreviation STAR :: char where
  "STAR \<equiv> CHR ''*''"

text \<open>
  \<open>str.isspace\<close>, \<open>str.strip()\<close> and the pattern \<open>\s\<close> agree on the white space of
  the range: \<open>U+0009..U+000D\<close>, \<open>U+001C..U+0020\<close>, \<open>U+0085\<close> and \<open>U+00A0\<close>.
\<close>

definition isspace :: "char \<Rightarrow> bool" where
  "isspace c = (c \<in> set [CHR 0x09, CHR 0x0A, CHR 0x0B, CHR 0x0C, CHR 0x0D,
                          CHR 0x1C, CHR 0x1D, CHR 0x1E, CHR 0x1F, CHR 0x20,
                          CHR 0x85, CHR 0xA0])"

text \<open>The pattern \<open>\d\<close>: the decimal digits, which below 256 are \<open>0\<close> to \<open>9\<close>.\<close>

definition isdigit :: "char \<Rightarrow> bool" where
  "isdigit c = (c \<in> set ''0123456789'')"

text \<open>The character class \<open>[A-Da-d1-9]\<close> of the marker pattern.\<close>

definition ismarker :: "char \<Rightarrow> bool" where
  "ismarker c = (c \<in> set ''ABCDabcd123456789'')"

text \<open>
  \<open>str.lower()\<close>, one code point at a time: \<open>A..Z\<close> and the Latin-1 capitals
  \<open>U+00C0..U+00DE\<close> (without the multiplication sign \<open>U+00D7\<close>) move up by 32, every
  other code point of the range stays.
\<close>

definition lower_char :: "char \<Rightarrow> char" where
  "lower_char c =
     (let n = (of_char c :: nat)
      in if (65 \<le> n \<and> n \<le> 90) \<or> (192 \<le> n \<and> n \<le> 222 \<and> n \<noteq> 215)
         then char_of (n + 32) else c)"

definition lower :: "string \<Rightarrow> string" where
  "lower s = map lower_char s"

text \<open>\<open>s.strip()\<close> and \<open>s.strip("*")\<close>.\<close>

definition strip :: "string \<Rightarrow> string" where
  "strip s = rev (dropWhile isspace (rev (dropWhile isspace s)))"

definition strip_stars :: "string \<Rightarrow> string" where
  "strip_stars s = rev (dropWhile (\<lambda>c. c = STAR) (rev (dropWhile (\<lambda>c. c = STAR) s)))"

text \<open>\<open>s.startswith(p)\<close>.\<close>

definition startswith :: "string \<Rightarrow> string \<Rightarrow> bool" where
  "startswith s p = (take (length p) s = p)"

text \<open>\<open>s.split('\n')\<close>: the pieces between the newlines, always at least one piece.\<close>

fun split_nl :: "string \<Rightarrow> string list" where
  "split_nl [] = [[]]"
| "split_nl (c # cs) =
     (if c = NL then [] # split_nl cs
      else (case split_nl cs of [] \<Rightarrow> [[c]] | l # ls \<Rightarrow> (c # l) # ls))"

text \<open>Decimal rendering of a number, as an f-string does it.\<close>

definition digit_char :: "nat \<Rightarrow> char" where
  "digit_char d = char_of (48 + d)"

fun str_nat :: "nat \<Rightarrow> string" where
  "str_nat n = (if n < 10 then [digit_char n] else str_nat (n div 10) @ [digit_char (n mod 10)])"

declare str_nat.simps [simp del]

section \<open>The patterns\<close>

text \<open>
  \<open>main\<close> is the only caller of the parser and takes both patterns from two tables:
  \<^verbatim>\<open>
  q_sep_map = { 'bold': r'\n(?=\*\*)', 'question': r'\n(?=Question\s+\d+:)',
                'newline': r'\n\s*\n' }
  opt_regex_map = { 'A)': r'^[A-D]\)', 'a)': r'^[a-d]\)',
                    '\u00b7 A)': r'^\u00b7\s[A-D]\)', '1)': r'^\d+\)' }
  \<close>
  The keys are the configuration; each pattern is embedded as the matcher it denotes.
\<close>

datatype q_sep = Bold | QuestionLabel | Newline

datatype opt_regex = UpperOpt | LowerOpt | BulletOpt | NumOpt

text \<open>
  A separator match starts at a newline. \<open>sep_match sep cs\<close> looks at the text \<open>cs\<close> after
  that newline and returns how many more characters the match consumes, or \<open>None\<close> when the
  pattern does not match there.
  \<^item> \<open>\n(?=\*\*)\<close>: the lookahead wants two asterisks and consumes nothing.
  \<^item> \<open>\n(?=Question\s+\d+:)\<close>: white space and digits are disjoint classes and neither
    holds the colon, so \<open>\s+\<close> and \<open>\d+\<close> can only succeed on their whole runs.
  \<^item> \<open>\n\s*\n\<close>: the greedy \<open>\s*\<close> takes the whole run of white space and gives
    characters back until a newline follows, so the match ends with the last newline
    of the run.
\<close>

definition sep_match :: "q_sep \<Rightarrow> string \<Rightarrow> nat option" where
  "sep_match sep cs =
     (case sep of
        Bold \<Rightarrow> if startswith cs ''**'' then Some 0 else None
      | QuestionLabel \<Rightarrow>
          (if startswith cs ''Question''
           then (let r = drop 8 cs;
                     r' = dropWhile isspace r;
                     r'' = dropWhile isdigit r'
                 in if takeWhile isspace r \<noteq> [] \<and> takeWhile isdigit r' \<noteq> [] \<and> startswith r'' '':''
                    then Some 0 else None)
           else None)
      | Newline \<Rightarrow>
          (let run = takeWhile isspace cs
           in if NL \<in> set run
              then Some (length run - length (takeWhile (\<lambda>c. c \<noteq> NL) (rev run)))
              else None))"

text \<open>
  \<open>re.split(q_sep, text)\<close>: scan from the left, cut at every match, go on behind it.
  \<open>cur\<close> is the piece collected since the last cut.
\<close>

fun re_split :: "q_sep \<Rightarrow> string \<Rightarrow> string \<Rightarrow> string list" where
  "re_split sep cur [] = [cur]"
| "re_split sep cur (c # cs) =
     (if c = NL then
        (case sep_match sep cs of
           Some n \<Rightarrow> cur # re_split sep [] (drop n cs)
         | None \<Rightarrow> re_split sep (cur @ [c]) cs)
      else re_split sep (cur @ [c]) cs)"

text \<open>\<open>re.match(opt_regex, clean_line)\<close> as a truth value.\<close>

definition opt_match :: "opt_regex \<Rightarrow> string \<Rightarrow> bool" where
  "opt_match r s =
     (case r of
        UpperOpt \<Rightarrow> (case s of a # b # _ \<Rightarrow> a \<in> set ''ABCD'' \<and> b = CHR '')'' | _ \<Rightarrow> False)
      | LowerOpt \<Rightarrow> (case s of a # b # _ \<Rightarrow> a \<in> set ''abcd'' \<and> b = CHR '')'' | _ \<Rightarrow> False)
      | BulletOpt \<Rightarrow>
          (case s of a # b # c # d # _ \<Rightarrow>
             a = CHR 0xB7 \<and> isspace b \<and> c \<in> set ''ABCD'' \<and> d = CHR '')'' | _ \<Rightarrow> False)
      | NumOpt \<Rightarrow> takeWhile isdigit s \<noteq> [] \<and> startswith (dropWhile isdigit s) '')'')"

text \<open>
  \<open>re.sub(r'^[A-Da-d1-9]+\)\s*', '', s)\<close>: the closing parenthesis is outside the class,
  so the run of marker characters is taken whole; the white space behind it goes too.
\<close>

definition strip_marker :: "string \<Rightarrow> string" where
  "strip_marker s =
     (let r = dropWhile ismarker s
      in if takeWhile ismarker s \<noteq> [] \<and> startswith r '')''
         then dropWhile isspace (drop 1 r) else s)"

text \<open>
  \<open>re.sub(r'^\*\*(.*?)\*\*$', r'\1', s)\<close> on a line (a line holds no newline): the
  pattern spans the whole line or nothing, and the group is what lies between the two
  pairs of asterisks.
\<close>

definition unbold :: "string \<Rightarrow> string" where
  "unbold s =
     (if 4 \<le> length s \<and> take 2 s = ''**'' \<and> drop (length s - 2) s = ''**''
      then take (length s - 4) (drop 2 s) else s)"

text \<open>\<open>re.sub(r'^Question \d+:', '', s)\<close>.\<close>

definition strip_question_label :: "string \<Rightarrow> string" where
  "strip_question_label s =
     (if startswith s ''Question ''
      then (let r = drop 9 s; r' = dropWhile isdigit r
            in if takeWhile isdigit r \<noteq> [] \<and> startswith r' '':'' then drop 1 r' else s)
      else s)"

section \<open>The parser\<close>

record question_record =
  question :: string
  options :: "string list"
  answer :: string
  explanation :: string

text \<open>
  Every failure leaves \<open>parse_guided_format\<close> as a \<open>ValueError\<close>; the constructors
  tell the four \<open>raise\<close> statements apart and carry what their messages quote.
\<close>

datatype error =
    NotEnoughOptions nat string
  | MissingAnswer nat string
  | MissingExplanation nat string
  | NoValidQuestions

text \<open>The message of the error that reaches the caller, after the \<open>except\<close> clause has wrapped it.\<close>

fun inner_message :: "error \<Rightarrow> string" where
  "inner_message (NotEnoughOptions idx question_text) =
     ''Not enough options in question #'' @ str_nat idx @ '': \"'' @ question_text @ ''\"''"
| "inner_message (MissingAnswer idx question_text) =
     ''Missing answer in question #'' @ str_nat idx @ '': \"'' @ question_text @ ''\"''"
| "inner_message (MissingExplanation idx question_text) =
     ''Missing explanation in question #'' @ str_nat idx @ '': \"'' @ question_text @ ''\"''"
| "inner_message NoValidQuestions = ''No valid questions found. Check your format settings.''"

definition error_message :: "error \<Rightarrow> string" where
  "error_message e = ''Guided format parsing failed: '' @ inner_message e"

text \<open>Lines 22 and 23: the question text from the first line of a block.\<close>

definition clean_question_line :: "string \<Rightarrow> string" where
  "clean_question_line line0 =
     strip (strip_stars (strip (strip_question_label (unbold (strip line0)))))"

text \<open>
  The body of the loop over \<open>lines[1:]\<close>. The state is the triple
  \<open>(options, answer, explanation)\<close>; \<open>None\<close> is Python's \<open>None\<close>.
\<close>

type_synonym scan_state = "string list \<times> string option \<times> string option"

definition scan_line :: "opt_regex \<Rightarrow> string \<Rightarrow> string \<Rightarrow> scan_state \<Rightarrow> string \<Rightarrow> scan_state" where
  "scan_line opt_rx answer_prefix explanation_prefix st raw =
     (case st of (opts, ans, expl) \<Rightarrow>
        (let line = strip raw in
         if line = [] then (opts, ans, expl)
         else
           (let is_starred = startswith line ''*'';
                clean_line = strip (dropWhile (\<lambda>c. c = STAR) line)
            in if opt_match opt_rx clean_line
               then (opts @ [clean_line],
                     (if is_starred then Some (strip (strip_marker clean_line)) else ans), expl)
               else if startswith (lower line) (lower answer_prefix)
               then (opts, Some (strip (strip_marker (strip (drop (length answer_prefix) line)))), expl)
               else if startswith (lower line) (lower explanation_prefix)
               then (opts, ans, Some (strip (drop (length explanation_prefix) line)))
               else if is_starred
               then (opts @ [clean_line], Some clean_line, expl)
               else (opts, ans, expl))))"

definition scan_lines :: "opt_regex \<Rightarrow> string \<Rightarrow> string \<Rightarrow> string list \<Rightarrow> scan_state" where
  "scan_lines opt_rx answer_prefix explanation_prefix ls =
     foldl (scan_line opt_rx answer_prefix explanation_prefix) ([], None, None) ls"

text \<open>
  Lines 52 to 64: the three checks, in their order, and the record. Python's \<open>not x\<close>
  holds for \<open>None\<close> and for the empty string.
\<close>

definition validate :: "nat \<Rightarrow> string \<Rightarrow> scan_state \<Rightarrow> error + question_record" where
  "validate idx question_text st =
     (case st of (opts, ans, expl) \<Rightarrow>
        if length opts < 2 then Inl (NotEnoughOptions idx question_text)
        else (case ans of
                None \<Rightarrow> Inl (MissingAnswer idx question_text)
              | Some a \<Rightarrow>
                  if a = [] then Inl (MissingAnswer idx question_text)
                  else (case expl of
                          None \<Rightarrow> Inl (MissingExplanation idx question_text)
                        | Some x \<Rightarrow>
                            if x = [] then Inl (MissingExplanation idx question_text)
                            else Inr \<lparr> question = question_text, options = opts,
                                       answer = a, explanation = x \<rparr>)))"

text \<open>
  One turn of the loop over the blocks: \<open>Inr None\<close> is \<open>continue\<close>, \<open>Inl\<close> a \<open>raise\<close>.
\<close>

definition parse_block ::
  "opt_regex \<Rightarrow> string \<Rightarrow> string \<Rightarrow> nat \<Rightarrow> string \<Rightarrow> error + question_record option" where
  "parse_block opt_rx answer_prefix explanation_prefix idx raw =
     (let block = strip raw in
      if block = [] then Inr None
      else (case split_nl block of
              [] \<Rightarrow> Inr None
            | line0 # rest \<Rightarrow>
                (case validate idx (clean_question_line line0)
                        (scan_lines opt_rx answer_prefix explanation_prefix rest) of
                   Inl e \<Rightarrow> Inl e
                 | Inr q \<Rightarrow> Inr (Some q))))"

fun parse_blocks ::
  "opt_regex \<Rightarrow> string \<Rightarrow> string \<Rightarrow> nat \<Rightarrow> string list \<Rightarrow> question_record list
     \<Rightarrow> error + question_record list" where
  "parse_blocks opt_rx answer_prefix explanation_prefix idx [] questions = Inr questions"
| "parse_blocks opt_rx answer_prefix explanation_prefix idx (b # bs) questions =
     (case parse_block opt_rx answer_prefix explanation_prefix idx b of
        Inl e \<Rightarrow> Inl e
      | Inr None \<Rightarrow> parse_blocks opt_rx answer_prefix explanation_prefix (Suc idx) bs questions
      | Inr (Some q) \<Rightarrow>
          parse_blocks opt_rx answer_prefix explanation_prefix (Suc idx) bs (questions @ [q]))"

definition question_blocks :: "q_sep \<Rightarrow> string \<Rightarrow> string list" where
  "question_blocks sep text = re_split sep [] (strip text)"

definition parse_guided_format ::
  "string \<Rightarrow> q_sep \<Rightarrow> opt_regex \<Rightarrow> string \<Rightarrow> string \<Rightarrow> error + question_record list" where
  "parse_guided_format text sep opt_rx answer_prefix explanation_prefix =
     (case parse_blocks opt_rx answer_prefix explanation_prefix 1 (question_blocks sep text) [] of
        Inl e \<Rightarrow> Inl e
      | Inr questions \<Rightarrow> if questions = [] then Inl NoValidQuestions else Inr questions)"

section \<open>The serializer\<close>

text \<open>
  An \<open>lxml\<close> element: tag, attributes in the order they were given, text, children.
  \<open>create_qti_bytes\<close> is modelled up to the tree it hands to \<open>tree.write\<close>; turning that
  tree into bytes is the library's work. \<open>str(points_per_question)\<close> renders a float and is
  taken as the parameter \<open>points\<close>.
\<close>

datatype element =
  Element (tag: string) (attrib: "(string \<times> string) list") (etext: "string option")
    (children: "element list")

text \<open>Line 93: the text shown for an option, and the text the answer is compared with.\<close>

definition clean_option :: "string \<Rightarrow> string" where
  "clean_option opt = strip (strip_marker opt)"

text \<open>Lines 89 to 94: one \<open>response_label\<close> per option.\<close>

definition response_label :: "nat \<times> string \<Rightarrow> element" where
  "response_label p =
     (case p of (option_id, opt) \<Rightarrow>
        Element ''response_label'' [(''ident'', ''option'' @ str_nat option_id)] None
          [Element ''material'' [] None
             [Element ''mattext'' [] (Some (clean_option opt)) []]])"

text \<open>
  Lines 105 to 114: \<open>next\<close> over the generator returns the index of the first option that
  passes the comparison, and the default 1 when the generator is exhausted.
\<close>

definition answer_matches :: "string \<Rightarrow> string \<Rightarrow> bool" where
  "answer_matches ans opt = (lower (strip ans) = lower (clean_option opt))"

definition correct_option_id :: "question_record \<Rightarrow> nat" where
  "correct_option_id q =
     (case find (\<lambda>p. answer_matches (answer q) (snd p)) (enumerate 1 (options q)) of
        Some (idx, opt) \<Rightarrow> idx
      | None \<Rightarrow> 1)"

definition presentation :: "question_record \<Rightarrow> element" where
  "presentation q =
     Element ''presentation'' [] None
       [Element ''flow'' [] None
          [Element ''material'' [] None [Element ''mattext'' [] (Some (question q)) []],
           Element ''response_lid'' [(''ident'', ''response1''), (''rcardinality'', ''Single'')] None
             [Element ''render_choice'' [] None (map response_label (enumerate 1 (options q)))]]]"

definition correct_resp :: "string \<Rightarrow> question_record \<Rightarrow> element" where
  "correct_resp points q =
     Element ''respcondition'' [(''title'', ''correct'')] None
       [Element ''conditionvar'' [] None
          [Element ''varequal'' [(''respident'', ''response1'')]
             (Some (''option'' @ str_nat (correct_option_id q))) []],
        Element ''setvar'' [(''action'', ''Set'')] (Some points) [],
        Element ''displayfeedback''
          [(''feedbacktype'', ''Response''), (''linkrefid'', ''feedback_correct'')] None []]"

definition incorrect_resp :: element where
  "incorrect_resp =
     Element ''respcondition'' [(''title'', ''incorrect'')] None
       [Element ''conditionvar'' [] None [],
        Element ''setvar'' [(''action'', ''Set'')] (Some ''0'') [],
        Element ''displayfeedback''
          [(''feedbacktype'', ''Response''), (''linkrefid'', ''feedback_incorrect'')] None []]"

definition resprocessing :: "string \<Rightarrow> question_record \<Rightarrow> element" where
  "resprocessing points q =
     Element ''resprocessing'' [] None
       [Element ''outcomes'' [] None
          [Element ''decvar''
             [(''varname'', ''SCORE''), (''vartype'', ''Decimal''), (''default'', points)] None []],
        correct_resp points q,
        incorrect_resp]"

definition itemfeedback :: "string \<Rightarrow> question_record \<Rightarrow> element" where
  "itemfeedback ident q =
     Element ''itemfeedback'' [(''ident'', ident)] None
       [Element ''material'' [] None [Element ''mattext'' [] (Some (explanation q)) []]]"

text \<open>
  The element that the body of the loop over \<open>enumerate(questions)\<close>, which counts from
  0, has built when it reaches its end.
\<close>

definition item_tree :: "string \<Rightarrow> nat \<times> question_record \<Rightarrow> element" where
  "item_tree points p =
     (case p of (i, q) \<Rightarrow>
        Element ''item''
          [(''ident'', ''q'' @ str_nat (i + 1)), (''title'', ''Question '' @ str_nat (i + 1))] None
          [presentation q, resprocessing points q,
           itemfeedback ''feedback_correct'' q, itemfeedback ''feedback_incorrect'' q])"

text \<open>
  The body does not always reach its end. \<open>lxml\<close> checks every string it is given, and an
  assignment to \<open>.text\<close> raises
  \<^verbatim>\<open>ValueError("All strings must be XML compatible: Unicode or ASCII, no NULL bytes or control characters")\<close>
  when the string holds a code point below \<open>U+0020\<close> other than tab, line feed and
  carriage return. Four assignments take a text of the record: the question (line 84),
  each marker-stripped option (line 94) and the explanation (lines 127 and 133). None of
  them stands inside a \<open>try\<close>, so the first refusal leaves \<open>create_qti_bytes\<close> as that
  error and no document is returned. The tags, the attribute values and the text of the
  \<open>varequal\<close> are literals and decimal numbers, and the rendering of a float holds no
  control character: these always pass.
\<close>

datatype serialize_error = XmlIncompatible

definition xml_char :: "char \<Rightarrow> bool" where
  "xml_char c = (c \<in> set [CHR 0x09, CHR 0x0A, CHR 0x0D] \<or> 32 \<le> (of_char c :: nat))"

definition xml_compatible :: "string \<Rightarrow> bool" where
  "xml_compatible s = list_all xml_char s"

definition accepted_texts :: "question_record \<Rightarrow> bool" where
  "accepted_texts q =
     (xml_compatible (question q)
      \<and> list_all (\<lambda>opt. xml_compatible (clean_option opt)) (options q)
      \<and> xml_compatible (explanation q))"

definition item :: "string \<Rightarrow> nat \<times> question_record \<Rightarrow> serialize_error + element" where
  "item points p =
     (if accepted_texts (snd p) then Inr (item_tree points p) else Inl XmlIncompatible)"

text \<open>The loop over the records, from the index \<open>i\<close> on: the first error ends it.\<close>

fun build_items ::
  "string \<Rightarrow> nat \<Rightarrow> question_record list \<Rightarrow> serialize_error + element list" where
  "build_items points i [] = Inr []"
| "build_items points i (q # qs) =
     (case item points (i, q) of
        Inl e \<Rightarrow> Inl e
      | Inr it \<Rightarrow>
          (case build_items points (Suc i) qs of
             Inl e \<Rightarrow> Inl e
           | Inr its \<Rightarrow> Inr (it # its)))"

definition create_qti_bytes ::
  "question_record list \<Rightarrow> string \<Rightarrow> serialize_error + element" where
  "create_qti_bytes questions points =
     (case build_items points 0 questions of
        Inl e \<Rightarrow> Inl e
      | Inr its \<Rightarrow> Inr (Element ''questestinterop'' [] None its))"

subsection \<open>Reading the tree\<close>

text \<open>
  \<open>select path e\<close> follows a path of tags downwards from \<open>e\<close> and returns the elements it
  reaches, in document order; \<open>attr e k\<close> reads an attribute.
\<close>

fun select :: "string list \<Rightarrow> element \<Rightarrow> element list" where
  "select [] e = [e]"
| "select (t # ts) e = concat (map (select ts) (filter (\<lambda>c. tag c = t) (children e)))"

definition attr :: "element \<Rightarrow> string \<Rightarrow> string option" where
  "attr e k = map_of (attrib e) k"

text \<open>The \<open>respcondition\<close> titled "correct" of an item, and the text of its \<open>varequal\<close>.\<close>

definition correct_varequal_text :: "element \<Rightarrow> string option list" where
  "correct_varequal_text it =
     map etext
       (concat (map (select [''conditionvar'', ''varequal''])
          (filter (\<lambda>c. attr c ''title'' = Some ''correct'')
             (select [''resprocessing'', ''respcondition''] it))))"

definition response_labels :: "element \<Rightarrow> element list" where
  "response_labels it =
     select [''presentation'', ''flow'', ''response_lid'', ''render_choice'', ''response_label''] it"

definition label_material :: "element \<Rightarrow> string option list" where
  "label_material l = map etext (select [''material'', ''mattext''] l)"

definition example_text :: string where
  "example_text =
     ''Question 1: What is 2+2?\<newline>a) 3\<newline>*b) 4\<newline>c) 5\<newline>Answer: b) 4\<newline>Explanation: 2+2 is 4.''"

definition example_record :: question_record where
  "example_record =
     \<lparr> question = ''What is 2+2?'', options = [''a) 3'', ''b) 4'', ''c) 5''],
       answer = ''4'', explanation = ''2+2 is 4.'' \<rparr>"

section \<open>Vocabulary of the properties\<close>

text \<open>
  The branch conditions of \<open>scan_line\<close>, named: a line is starred when its stripped text
  starts with an asterisk; it is an option line when the first branch takes it, an answer
  line when the second branch takes it. \<open>answer_line_value\<close> is what the second branch
  stores.
\<close>

definition is_starred :: "string \<Rightarrow> bool" where
  "is_starred raw = startswith (strip raw) ''*''"

definition is_option_line :: "opt_regex \<Rightarrow> string \<Rightarrow> bool" where
  "is_option_line opt_rx raw =
     (strip raw \<noteq> [] \<and> opt_match opt_rx (strip (dropWhile (\<lambda>c. c = STAR) (strip raw))))"

definition is_answer_line :: "opt_regex \<Rightarrow> string \<Rightarrow> string \<Rightarrow> bool" where
  "is_answer_line opt_rx answer_prefix raw =
     (strip raw \<noteq> [] \<and> \<not> is_option_line opt_rx raw
      \<and> startswith (lower (strip raw)) (lower answer_prefix))"

definition answer_line_value :: "string \<Rightarrow> string \<Rightarrow> string" where
  "answer_line_value answer_prefix raw =
     strip (strip_marker (strip (drop (length answer_prefix) (strip raw))))"

text \<open>
  A block violates the checks of lines 52 to 57 when it is not skipped and its scan ends
  with fewer than two options, or with an answer or an explanation that is \<open>None\<close> or
  empty. \<open>violation\<close> is the error the first failing check raises for it: \<open>lines[0]\<close> is
  \<open>hd\<close> of the lines, \<open>lines[1:]\<close> is \<open>tl\<close>.
\<close>

definition violating :: "opt_regex \<Rightarrow> string \<Rightarrow> string \<Rightarrow> string \<Rightarrow> bool" where
  "violating opt_rx answer_prefix explanation_prefix raw =
     (strip raw \<noteq> [] \<and>
      (case scan_lines opt_rx answer_prefix explanation_prefix (tl (split_nl (strip raw))) of
         (opts, ans, expl) \<Rightarrow>
           length opts < 2 \<or> ans = None \<or> ans = Some [] \<or> expl = None \<or> expl = Some []))"

definition violation :: "opt_regex \<Rightarrow> string \<Rightarrow> string \<Rightarrow> nat \<Rightarrow> string \<Rightarrow> error" where
  "violation opt_rx answer_prefix explanation_prefix idx raw =
     (let question_text = clean_question_line (hd (split_nl (strip raw)))
      in case scan_lines opt_rx answer_prefix explanation_prefix (tl (split_nl (strip raw))) of
           (opts, ans, expl) \<Rightarrow>
             if length opts < 2 then NotEnoughOptions idx question_text
             else if ans = None \<or> ans = Some [] then MissingAnswer idx question_text
             else MissingExplanation idx question_text)"

text \<open>Reading a decimal numeral back, to tell the identifiers of two positions apart.\<close>

fun nat_of_digits :: "nat \<Rightarrow> string \<Rightarrow> nat" where
  "nat_of_digits a [] = a"
| "nat_of_digits a (c # cs) = nat_of_digits (10 * a + (of_char c - 48)) cs"

text \<open>Inputs the properties are tried on.\<close>

definition starred_after_answer_text :: string where
  "starred_after_answer_text =
     ''Question 1: What is 2+2?\<newline>a) 3\<newline>Answer: a) 3\<newline>*b) 4\<newline>Explanation: 2+2 is 4.''"


definition unmatched_record :: question_record where
  "unmatched_record =
     \<lparr> question = ''Capital of France?'', options = [''a) Rome'', ''b) Paris''],
       answer = ''Berlin'', explanation = ''It is Paris.'' \<rparr>"

definition twice_matched_record :: question_record where
  "twice_matched_record =
     \<lparr> question = ''Is it so?'', options = [''a) no'', ''b) Yes'', ''c) yes''],
       answer = ''YES'', explanation = ''It is.'' \<rparr>"




definition answer_after_starred_block :: string where
  "answer_after_starred_block =
     ''Question 1: What is 2+2?\<newline>*a) 3\<newline>b) 4\<newline>Answer: b) 4\<newline>Explanation: 2+2 is 4.''"

section \<open>Facts about the parser\<close>

lemma split_nl_nonempty: "split_nl s \<noteq> []"
  by (induction s) (auto split: list.splits)

lemma validate_Inr:
  "validate idx t st = Inr q \<Longrightarrow>
     2 \<le> length (options q) \<and> answer q \<noteq> [] \<and> explanation q \<noteq> []"
  by (auto simp: validate_def split: prod.splits if_splits option.splits)

lemma parse_block_nonblank:
  assumes "strip raw \<noteq> []"
  shows "parse_block opt_rx ap ep idx raw =
           (case validate idx (clean_question_line (hd (split_nl (strip raw))))
                   (scan_lines opt_rx ap ep (tl (split_nl (strip raw)))) of
              Inl e \<Rightarrow> Inl e | Inr q \<Rightarrow> Inr (Some q))"
proof (cases "split_nl (strip raw)")
  case Nil
  then show ?thesis using split_nl_nonempty by blast
next
  case (Cons line0 rest)
  with assms show ?thesis by (simp add: parse_block_def)
qed

lemma parse_block_blank: "strip raw = [] \<Longrightarrow> parse_block opt_rx ap ep idx raw = Inr None"
  by (simp add: parse_block_def)

lemma parse_block_Some:
  assumes "parse_block opt_rx ap ep idx raw = Inr (Some q)"
  shows "2 \<le> length (options q) \<and> answer q \<noteq> [] \<and> explanation q \<noteq> []"
proof (cases "strip raw = []")
  case True
  with assms show ?thesis by (simp add: parse_block_blank)
next
  case False
  with assms show ?thesis
    by (auto simp: parse_block_nonblank split: sum.splits dest: validate_Inr)
qed

lemma parse_block_None:
  "(parse_block opt_rx ap ep idx raw = Inr None) = (strip raw = [])"
proof (cases "strip raw = []")
  case True
  then show ?thesis by (simp add: parse_block_blank)
next
  case False
  then show ?thesis by (simp add: parse_block_nonblank split: sum.splits)
qed

lemma validate_violation:
  "length opts < 2 \<or> ans = None \<or> ans = Some [] \<or> expl = None \<or> expl = Some [] \<Longrightarrow>
   validate idx t (opts, ans, expl) =
     Inl (if length opts < 2 then NotEnoughOptions idx t
          else if ans = None \<or> ans = Some [] then MissingAnswer idx t
          else MissingExplanation idx t)"
  by (cases ans; cases expl) (auto simp: validate_def)

lemma validate_ok:
  "\<not> (length opts < 2 \<or> ans = None \<or> ans = Some [] \<or> expl = None \<or> expl = Some []) \<Longrightarrow>
   \<exists>q. validate idx t (opts, ans, expl) = Inr q"
  by (cases ans; cases expl) (auto simp: validate_def)

lemma parse_block_violation:
  assumes "violating opt_rx ap ep raw"
  shows "parse_block opt_rx ap ep idx raw = Inl (violation opt_rx ap ep idx raw)"
proof -
  obtain opts ans expl where
    sc: "scan_lines opt_rx ap ep (tl (split_nl (strip raw))) = (opts, ans, expl)"
    by (cases "scan_lines opt_rx ap ep (tl (split_nl (strip raw)))") auto
  from assms have nb: "strip raw \<noteq> []"
    and v: "length opts < 2 \<or> ans = None \<or> ans = Some [] \<or> expl = None \<or> expl = Some []"
    by (simp_all add: violating_def sc)
  show ?thesis
    by (simp add: parse_block_nonblank [OF nb] sc validate_violation [OF v] violation_def Let_def)
qed

lemma parse_block_not_violating:
  assumes "\<not> violating opt_rx ap ep raw"
  shows "parse_block opt_rx ap ep idx raw \<noteq> Inl e"
proof (cases "strip raw = []")
  case True
  then show ?thesis by (simp add: parse_block_blank)
next
  case False
  obtain opts ans expl where
    sc: "scan_lines opt_rx ap ep (tl (split_nl (strip raw))) = (opts, ans, expl)"
    by (cases "scan_lines opt_rx ap ep (tl (split_nl (strip raw)))") auto
  from assms False
  have "\<not> (length opts < 2 \<or> ans = None \<or> ans = Some [] \<or> expl = None \<or> expl = Some [])"
    by (simp add: violating_def sc)
  from validate_ok [OF this] obtain q where
    "validate idx (clean_question_line (hd (split_nl (strip raw)))) (opts, ans, expl) = Inr q"
    by blast
  then show ?thesis by (simp add: parse_block_nonblank [OF False] sc)
qed



lemma parse_blocks_Inr_invariant:
  "parse_blocks opt_rx ap ep idx bs acc = Inr qs \<Longrightarrow>
   \<forall>q\<in>set acc. 2 \<le> length (options q) \<and> answer q \<noteq> [] \<and> explanation q \<noteq> [] \<Longrightarrow>
   \<forall>q\<in>set qs. 2 \<le> length (options q) \<and> answer q \<noteq> [] \<and> explanation q \<noteq> []"
proof (induction bs arbitrary: idx acc)
  case Nil
  then show ?case by simp
next
  case (Cons b bs)
  show ?case
  proof (cases "parse_block opt_rx ap ep idx b")
    case (Inl e)
    with Cons.prems show ?thesis by simp
  next
    case (Inr r)
    show ?thesis
    proof (cases r)
      case None
      with Inr Cons.prems have "parse_blocks opt_rx ap ep (Suc idx) bs acc = Inr qs" by simp
      then show ?thesis using Cons.prems(2) by (rule Cons.IH)
    next
      case (Some q)
      with Inr Cons.prems have "parse_blocks opt_rx ap ep (Suc idx) bs (acc @ [q]) = Inr qs" by simp
      moreover have "\<forall>q\<in>set (acc @ [q]). 2 \<le> length (options q) \<and> answer q \<noteq> [] \<and> explanation q \<noteq> []"
        using Cons.prems(2) parse_block_Some [of opt_rx ap ep idx b q] Inr Some by auto
      ultimately show ?thesis by (rule Cons.IH)
    qed
  qed
qed

lemma parse_blocks_acc_prefix:
  "parse_blocks opt_rx ap ep idx bs acc = Inr qs \<Longrightarrow> length acc \<le> length qs"
proof (induction bs arbitrary: idx acc)
  case Nil
  then show ?case by simp
next
  case (Cons b bs)
  show ?case
  proof (cases "parse_block opt_rx ap ep idx b")
    case (Inl e)
    with Cons.prems show ?thesis by simp
  next
    case (Inr r)
    show ?thesis
    proof (cases r)
      case None
      with Inr Cons.prems have "parse_blocks opt_rx ap ep (Suc idx) bs acc = Inr qs" by simp
      then show ?thesis by (rule Cons.IH)
    next
      case (Some q)
      with Inr Cons.prems have "parse_blocks opt_rx ap ep (Suc idx) bs (acc @ [q]) = Inr qs" by simp
      then have "length (acc @ [q]) \<le> length qs" by (rule Cons.IH)
      then show ?thesis by simp
    qed
  qed
qed

lemma parse_blocks_all_blank:
  "\<forall>b\<in>set bs. strip b = [] \<Longrightarrow> parse_blocks opt_rx ap ep idx bs acc = Inr acc"
  by (induction bs arbitrary: idx) (simp_all add: parse_block_blank)

lemma parse_blocks_Inr_Nil:
  "parse_blocks opt_rx ap ep idx bs [] = Inr [] \<Longrightarrow> \<forall>b\<in>set bs. strip b = []"
proof (induction bs arbitrary: idx)
  case Nil
  then show ?case by simp
next
  case (Cons b bs)
  show ?case
  proof (cases "parse_block opt_rx ap ep idx b")
    case (Inl e)
    with Cons.prems show ?thesis by simp
  next
    case (Inr r)
    show ?thesis
    proof (cases r)
      case None
      with Inr have "strip b = []" by (simp add: parse_block_None)
      moreover from Inr None Cons.prems
      have "parse_blocks opt_rx ap ep (Suc idx) bs [] = Inr []" by simp
      then have "\<forall>b\<in>set bs. strip b = []" by (rule Cons.IH)
      ultimately show ?thesis by simp
    next
      case (Some q)
      with Inr Cons.prems have "parse_blocks opt_rx ap ep (Suc idx) bs [q] = Inr []" by simp
      from parse_blocks_acc_prefix [OF this] show ?thesis by simp
    qed
  qed
qed

lemma scan_line_option:
  "is_option_line opt_rx raw \<Longrightarrow>
   scan_line opt_rx ap ep (opts, ans, expl) raw =
     (opts @ [strip (dropWhile (\<lambda>c. c = STAR) (strip raw))],
      (if is_starred raw
       then Some (clean_option (strip (dropWhile (\<lambda>c. c = STAR) (strip raw)))) else ans),
      expl)"
  by (simp add: scan_line_def is_option_line_def is_starred_def clean_option_def Let_def)

lemma scan_line_answer:
  "is_answer_line opt_rx ap raw \<Longrightarrow>
   scan_line opt_rx ap ep (opts, ans, expl) raw = (opts, Some (answer_line_value ap raw), expl)"
  by (auto simp: scan_line_def is_answer_line_def is_option_line_def answer_line_value_def Let_def)

lemma scan_line_keeps_answer:
  "\<not> is_starred raw \<Longrightarrow> \<not> is_answer_line opt_rx ap raw \<Longrightarrow>
   fst (snd (scan_line opt_rx ap ep st raw)) = fst (snd st)"
  by (cases st)
    (auto simp: scan_line_def is_answer_line_def is_option_line_def is_starred_def Let_def)

lemma foldl_scan_line_keeps_answer:
  "\<forall>l\<in>set ls. \<not> is_starred l \<and> \<not> is_answer_line opt_rx ap l \<Longrightarrow>
   fst (snd (foldl (scan_line opt_rx ap ep) st ls)) = fst (snd st)"
  by (induction ls arbitrary: st) (simp_all add: scan_line_keeps_answer)

lemma scan_lines_last_answer:
  assumes "is_answer_line opt_rx ap l"
    and "\<forall>l'\<in>set post. \<not> is_starred l' \<and> \<not> is_answer_line opt_rx ap l'"
  shows "fst (snd (scan_lines opt_rx ap ep (pre @ l # post))) = Some (answer_line_value ap l)"
proof -
  obtain opts ans expl where st: "foldl (scan_line opt_rx ap ep) ([], None, None) pre = (opts, ans, expl)"
    by (cases "foldl (scan_line opt_rx ap ep) ([], None, None) pre") auto
  have "fst (snd (scan_lines opt_rx ap ep (pre @ l # post)))
      = fst (snd (foldl (scan_line opt_rx ap ep) (opts, Some (answer_line_value ap l), expl) post))"
    by (simp add: scan_lines_def st scan_line_answer [OF assms(1)])
  also have "\<dots> = Some (answer_line_value ap l)"
    by (simp add: foldl_scan_line_keeps_answer [OF assms(2)])
  finally show ?thesis .
qed

lemma validate_Inr_fields:
  "validate idx t st = Inr q \<Longrightarrow>
     st = (options q, Some (answer q), Some (explanation q)) \<and> question q = t"
  by (auto simp: validate_def split: prod.splits if_splits option.splits)

section \<open>Facts about the serializer\<close>

lemma find_enumerate_None:
  "(find (\<lambda>p. P (snd p)) (enumerate n xs) = None) = (\<forall>x\<in>set xs. \<not> P x)"
  by (induction xs arbitrary: n) auto

lemma find_enumerate_Some:
  "find (\<lambda>p. P (snd p)) (enumerate n xs) = Some (k, y) \<Longrightarrow>
     n \<le> k \<and> k < n + length xs \<and> y = xs ! (k - n) \<and> P y \<and> (\<forall>j<k - n. \<not> P (xs ! j))"
proof (induction xs arbitrary: n)
  case Nil
  then show ?case by simp
next
  case (Cons x xs)
  show ?case
  proof (cases "P x")
    case True
    with Cons.prems show ?thesis by simp
  next
    case False
    with Cons.prems have "find (\<lambda>p. P (snd p)) (enumerate (Suc n) xs) = Some (k, y)" by simp
    from Cons.IH [OF this]
    have *: "Suc n \<le> k" "k < Suc n + length xs" "y = xs ! (k - Suc n)" "P y"
      "\<forall>j<k - Suc n. \<not> P (xs ! j)" by auto
    have "\<forall>j<k - n. \<not> P ((x # xs) ! j)"
    proof (intro allI impI)
      fix j assume "j < k - n"
      then show "\<not> P ((x # xs) ! j)" using False * by (cases j) auto
    qed
    moreover have "y = (x # xs) ! (k - n)" using * by (simp add: Suc_diff_le)
    ultimately show ?thesis using * by simp
  qed
qed

lemma correct_option_id_fallback:
  "\<forall>opt\<in>set (options q). \<not> answer_matches (answer q) opt \<Longrightarrow> correct_option_id q = 1"
  by (simp add: correct_option_id_def find_enumerate_None [THEN iffD2])

lemma correct_option_id_first:
  assumes "\<exists>opt\<in>set (options q). answer_matches (answer q) opt"
  shows "1 \<le> correct_option_id q \<and> correct_option_id q \<le> length (options q)
         \<and> answer_matches (answer q) (options q ! (correct_option_id q - 1))
         \<and> (\<forall>j<correct_option_id q - 1. \<not> answer_matches (answer q) (options q ! j))"
proof -
  from assms have "find (\<lambda>p. answer_matches (answer q) (snd p)) (enumerate 1 (options q)) \<noteq> None"
    by (simp add: find_enumerate_None)
  then obtain k y where f: "find (\<lambda>p. answer_matches (answer q) (snd p)) (enumerate 1 (options q)) = Some (k, y)"
    by auto
  then have k: "correct_option_id q = k" by (simp add: correct_option_id_def)
  from find_enumerate_Some [OF f] show ?thesis unfolding k by auto
qed

lemma correct_option_id_range:
  "options q \<noteq> [] \<Longrightarrow> 1 \<le> correct_option_id q \<and> correct_option_id q \<le> length (options q)"
proof (cases "\<exists>opt\<in>set (options q). answer_matches (answer q) opt")
  case True
  then show ?thesis using correct_option_id_first by blast
next
  case False
  assume "options q \<noteq> []"
  then have "1 \<le> length (options q)" by (cases "options q") auto
  with False show ?thesis by (simp add: correct_option_id_fallback)
qed

lemma correct_varequal_text_item:
  "correct_varequal_text (item_tree points (i, q))
     = [Some (''option'' @ str_nat (correct_option_id q))]"
  by (simp add: correct_varequal_text_def item_tree_def presentation_def resprocessing_def
      correct_resp_def incorrect_resp_def itemfeedback_def attr_def)

lemma filter_response_label:
  "filter (\<lambda>c. tag c = ''response_label'') (map response_label ps) = map response_label ps"
  by (induction ps) (auto simp: response_label_def)

lemma concat_select_Nil: "concat (map (select [] \<circ> f) xs) = map f xs"
  by (induction xs) auto

lemma response_labels_item:
  "response_labels (item_tree points (i, q)) = map response_label (enumerate 1 (options q))"
  by (simp add: response_labels_def item_tree_def presentation_def resprocessing_def
      itemfeedback_def filter_response_label concat_select_Nil)

lemma build_items_eq:
  "build_items points n qs =
     (if list_all accepted_texts qs then Inr (map (item_tree points) (enumerate n qs))
      else Inl XmlIncompatible)"
  by (induction qs arbitrary: n) (simp_all add: item_def)

lemma create_qti_bytes_accepted:
  "list_all accepted_texts questions \<Longrightarrow>
     create_qti_bytes questions points =
       Inr (Element ''questestinterop'' [] None (map (item_tree points) (enumerate 0 questions)))"
  by (simp add: create_qti_bytes_def build_items_eq)

lemma create_qti_bytes_refused:
  "\<not> list_all accepted_texts questions \<Longrightarrow>
     create_qti_bytes questions points = Inl XmlIncompatible"
  by (simp add: create_qti_bytes_def build_items_eq)

lemma create_qti_bytes_Inr:
  assumes "create_qti_bytes questions points = Inr doc"
  shows "list_all accepted_texts questions"
    and "doc = Element ''questestinterop'' [] None (map (item_tree points) (enumerate 0 questions))"
proof -
  show a: "list_all accepted_texts questions"
  proof (rule ccontr)
    assume "\<not> list_all accepted_texts questions"
    then have "create_qti_bytes questions points = Inl XmlIncompatible"
      by (rule create_qti_bytes_refused)
    with assms show False by simp
  qed
  from create_qti_bytes_accepted [OF a, of points] assms
  show "doc = Element ''questestinterop'' [] None (map (item_tree points) (enumerate 0 questions))"
    by simp
qed

lemma length_children_create_qti_bytes:
  assumes "create_qti_bytes questions points = Inr doc"
  shows "length (children doc) = length questions"
  using create_qti_bytes_Inr(2) [OF assms] by simp

lemma children_create_qti_bytes:
  assumes "create_qti_bytes questions points = Inr doc" and "i < length questions"
  shows "children doc ! i = item_tree points (i, questions ! i)"
  using create_qti_bytes_Inr(2) [OF assms(1)] assms(2) by (simp add: nth_enumerate_eq)

lemma response_label_parts:
  "tag (response_label (k, opt)) = ''response_label''"
  "attr (response_label (k, opt)) ''ident'' = Some (''option'' @ str_nat k)"
  "label_material (response_label (k, opt)) = [Some (clean_option opt)]"
  by (simp_all add: response_label_def attr_def label_material_def)

lemma item_parts:
  "tag (item_tree points (i, q)) = ''item''"
  "attr (item_tree points (i, q)) ''ident'' = Some (''q'' @ str_nat (i + 1))"
  "attr (item_tree points (i, q)) ''title'' = Some (''Question '' @ str_nat (i + 1))"
  by (simp_all add: item_tree_def attr_def)

lemma nat_of_digits_append: "nat_of_digits a (xs @ ys) = nat_of_digits (nat_of_digits a xs) ys"
  by (induction xs arbitrary: a) auto

lemma of_char_digit_char: "d < 10 \<Longrightarrow> (of_char (digit_char d) :: nat) = 48 + d"
  by (simp add: digit_char_def)

lemma nat_of_digits_str_nat: "nat_of_digits 0 (str_nat n) = n"
proof (induction n rule: str_nat.induct)
  case (1 n)
  show ?case
  proof (cases "n < 10")
    case True
    then show ?thesis by (simp add: str_nat.simps [of n] of_char_digit_char)
  next
    case False
    with 1 have "nat_of_digits 0 (str_nat (n div 10)) = n div 10" by simp
    then show ?thesis using False
      by (simp add: str_nat.simps [of n] nat_of_digits_append of_char_digit_char)
  qed
qed

lemma str_nat_inject: "str_nat m = str_nat n \<Longrightarrow> m = n"
  by (metis nat_of_digits_str_nat)

section \<open>The worked example\<close>

text \<open>
  C1. The example text, split at question labels, with lower-case option markers and the
  prefixes \<open>Answer:\<close> and \<open>Explanation:\<close>, parses into exactly one record: question text
  \<open>What is 2+2?\<close>, the options \<open>a) 3\<close>, \<open>b) 4\<close>, \<open>c) 5\<close>, answer \<open>4\<close>, explanation
  \<open>2+2 is 4.\<close>; the document built from that record has one item, and the \<open>varequal\<close> of
  its "correct" condition reads \<open>option2\<close>, whatever the points are.
\<close>

theorem example_end_to_end:
  "parse_guided_format example_text QuestionLabel LowerOpt ''Answer:'' ''Explanation:''
     = Inr [example_record]
   \<and> (\<exists>doc. create_qti_bytes [example_record] points = Inr doc
          \<and> map correct_varequal_text (children doc) = [[Some ''option2'']])"
proof -
  have "parse_guided_format example_text QuestionLabel LowerOpt ''Answer:'' ''Explanation:''
     = Inr [example_record]"
    by code_simp
  moreover have "create_qti_bytes [example_record] points
     = Inr (Element ''questestinterop'' [] None [item_tree points (0, example_record)])"
    by code_simp
  moreover have "map correct_varequal_text
       (children (Element ''questestinterop'' [] None [item_tree points (0, example_record)]))
     = [[Some ''option2'']]"
    by code_simp
  ultimately show ?thesis by simp
qed

text \<open>
  C4, as the code has it. With the blank-line separator the example text holds no match of
  \<open>\n\s*\n\<close>, so \<open>re.split\<close> returns the whole text as its only block, and that block
  parses into the same record as before: the parse succeeds.
\<close>

theorem example_blank_line_separator:
  "question_blocks Newline example_text = [example_text]
   \<and> parse_guided_format example_text Newline LowerOpt ''Answer:'' ''Explanation:''
     = Inr [example_record]"
  by code_simp

text \<open>
  C4, as the claim states it, fails: on the example text with the blank-line separator the
  parse does not end in the structural failure (nor in any other).
\<close>

theorem example_blank_line_separator_counterexample:
  "parse_guided_format example_text Newline LowerOpt ''Answer:'' ''Explanation:''
     \<noteq> Inl NoValidQuestions
   \<and> \<not> isl (parse_guided_format example_text Newline LowerOpt ''Answer:'' ''Explanation:'')"
  by code_simp

section \<open>The correct condition\<close>




text \<open>
  C9. When the answer matches the option at some position \<open>j\<close> (counted from 0), and so
  also when it matches several, the number in the "correct" condition is the position of
  the first matching option, counted from 1: it is at most \<open>j + 1\<close>, the option at that
  position matches, and none before it does. It is the number in the \<open>varequal\<close> of the
  item the loop body builds for the record, and of the item it returns when no text is
  refused.
\<close>

theorem first_matching_option_wins:
  assumes "j < length (options q)" and "answer_matches (answer q) (options q ! j)"
  shows "1 \<le> correct_option_id q \<and> correct_option_id q \<le> Suc j
         \<and> answer_matches (answer q) (options q ! (correct_option_id q - 1))
         \<and> (\<forall>m<correct_option_id q - 1. \<not> answer_matches (answer q) (options q ! m))
         \<and> correct_varequal_text (item_tree points (i, q))
             = [Some (''option'' @ str_nat (correct_option_id q))]
         \<and> (\<forall>it. item points (i, q) = Inr it \<longrightarrow>
               correct_varequal_text it = [Some (''option'' @ str_nat (correct_option_id q))])"
proof -
  from assms have "\<exists>opt\<in>set (options q). answer_matches (answer q) opt"
    using nth_mem by blast
  from correct_option_id_first [OF this]
  have c: "1 \<le> correct_option_id q"
    "answer_matches (answer q) (options q ! (correct_option_id q - 1))"
    "\<forall>m<correct_option_id q - 1. \<not> answer_matches (answer q) (options q ! m)" by simp_all
  from c(3) assms(2) have "\<not> j < correct_option_id q - 1" by blast
  then have "correct_option_id q \<le> Suc j" by simp
  moreover have "\<forall>it. item points (i, q) = Inr it \<longrightarrow>
      correct_varequal_text it = [Some (''option'' @ str_nat (correct_option_id q))]"
    by (auto simp: item_def correct_varequal_text_item split: if_splits)
  ultimately show ?thesis using c by (simp add: correct_varequal_text_item)
qed

theorem first_matching_option_wins_witness:
  "correct_option_id twice_matched_record = 2
   \<and> correct_varequal_text (item_tree ''1.0'' (0, twice_matched_record)) = [Some ''option2'']
   \<and> item ''1.0'' (0, twice_matched_record) = Inr (item_tree ''1.0'' (0, twice_matched_record))"
proof -
  let ?q = twice_matched_record
  have m: "\<not> answer_matches ''YES'' ''a) no''" "answer_matches ''YES'' ''b) Yes''"
    "answer_matches ''YES'' ''c) yes''"
    by code_simp+
  have s: "str_nat 2 = ''2''" by code_simp
  have it: "item ''1.0'' (0, ?q) = Inr (item_tree ''1.0'' (0, ?q))" by code_simp
  have j: "2 < length (options ?q)" "answer_matches (answer ?q) (options ?q ! 2)"
    using m by (simp_all add: twice_matched_record_def)
  note w = first_matching_option_wins [OF j, of "''1.0''" 0]
  have "correct_option_id ?q \<noteq> 1"
    using w m by (auto simp: twice_matched_record_def)
  moreover have "correct_option_id ?q \<noteq> 3"
  proof
    assume "correct_option_id ?q = 3"
    with w have "\<not> answer_matches (answer ?q) (options ?q ! 1)" by simp
    with m show False by (simp add: twice_matched_record_def)
  qed
  ultimately have "correct_option_id ?q = 2" using w by arith
  with w s it show ?thesis by simp
qed

section \<open>The items of the document\<close>

lemma response_labels_item_nth:
  "j < length (options q) \<Longrightarrow>
     response_labels (item_tree points (i, q)) ! j = response_label (Suc j, options q ! j)"
  by (simp add: response_labels_item nth_enumerate_eq)

lemma length_response_labels_item:
  "length (response_labels (item_tree points (i, q))) = length (options q)"
  by (simp add: response_labels_item)

text \<open>
  C8. A document the serializer returns has as many items as there are records. The item
  of the record at position \<open>i\<close> (counted from 0 here, so \<open>i + 1\<close> is the 1-based position)
  has the identifier \<open>q\<close> followed by \<open>i + 1\<close> and the title \<open>Question\<close> followed by
  \<open>i + 1\<close>, and no other item has that identifier. Its \<open>response_label\<close> nodes are as many
  as the record's options and in their order: the node at position \<open>j\<close> has the
  identifier \<open>option\<close> followed by \<open>j + 1\<close>, and its only \<open>mattext\<close> holds the
  marker-stripped, stripped text of the option at position \<open>j\<close>.
\<close>

theorem item_structure:
  assumes "create_qti_bytes questions points = Inr doc" and "i < length questions"
  shows "length (children doc) = length questions
         \<and> tag (children doc ! i) = ''item''
         \<and> attr (children doc ! i) ''ident'' = Some (''q'' @ str_nat (i + 1))
         \<and> attr (children doc ! i) ''title'' = Some (''Question '' @ str_nat (i + 1))
         \<and> (\<forall>i'<length questions.
               attr (children doc ! i') ''ident'' = Some (''q'' @ str_nat (i + 1)) \<longrightarrow> i' = i)
         \<and> length (response_labels (children doc ! i)) = length (options (questions ! i))
         \<and> (\<forall>j<length (options (questions ! i)).
               tag (response_labels (children doc ! i) ! j) = ''response_label''
               \<and> attr (response_labels (children doc ! i) ! j) ''ident''
                   = Some (''option'' @ str_nat (j + 1))
               \<and> label_material (response_labels (children doc ! i) ! j)
                   = [Some (clean_option (options (questions ! i) ! j))])"
proof -
  let ?it = "children doc ! i"
  have it: "?it = item_tree points (i, questions ! i)"
    using assms by (rule children_create_qti_bytes)
  have n: "length (children doc) = length questions"
    using assms(1) by (rule length_children_create_qti_bytes)
  have u: "\<forall>i'<length questions.
      attr (children doc ! i') ''ident'' = Some (''q'' @ str_nat (i + 1)) \<longrightarrow> i' = i"
  proof (intro allI impI)
    fix i' assume "i' < length questions"
      and "attr (children doc ! i') ''ident'' = Some (''q'' @ str_nat (i + 1))"
    then have "str_nat (i' + 1) = str_nat (i + 1)"
      by (simp add: children_create_qti_bytes [OF assms(1)] item_parts)
    then have "i' + 1 = i + 1" by (rule str_nat_inject)
    then show "i' = i" by simp
  qed
  have l: "\<forall>j<length (options (questions ! i)).
      tag (response_labels ?it ! j) = ''response_label''
      \<and> attr (response_labels ?it ! j) ''ident'' = Some (''option'' @ str_nat (j + 1))
      \<and> label_material (response_labels ?it ! j) = [Some (clean_option (options (questions ! i) ! j))]"
    by (simp add: it response_labels_item_nth response_label_parts)
  have c: "length (response_labels ?it) = length (options (questions ! i))"
    by (simp add: it length_response_labels_item)
  have p: "tag ?it = ''item''" "attr ?it ''ident'' = Some (''q'' @ str_nat (i + 1))"
    "attr ?it ''title'' = Some (''Question '' @ str_nat (i + 1))"
    by (simp_all add: it item_parts)
  show ?thesis using n u l c p by blast
qed

theorem item_structure_witness:
  "create_qti_bytes [example_record, unmatched_record] ''1.0''
     = Inr (Element ''questestinterop'' [] None
              [item_tree ''1.0'' (0, example_record), item_tree ''1.0'' (1, unmatched_record)])
   \<and> attr (item_tree ''1.0'' (1, unmatched_record)) ''ident'' = Some ''q2''
   \<and> attr (item_tree ''1.0'' (1, unmatched_record)) ''title'' = Some ''Question 2''
   \<and> length (response_labels (item_tree ''1.0'' (1, unmatched_record))) = 2
   \<and> attr (response_labels (item_tree ''1.0'' (1, unmatched_record)) ! 1) ''ident''
     = Some ''option2''
   \<and> label_material (response_labels (item_tree ''1.0'' (1, unmatched_record)) ! 1)
     = [Some ''Paris'']"
proof -
  let ?doc = "Element ''questestinterop'' [] None
      [item_tree ''1.0'' (0, example_record), item_tree ''1.0'' (1, unmatched_record)]"
  have d: "create_qti_bytes [example_record, unmatched_record] ''1.0'' = Inr ?doc" by code_simp
  have s: "str_nat (Suc (Suc 0)) = ''2''" by code_simp
  have c: "clean_option ''b) Paris'' = ''Paris''" by code_simp
  have i: "1 < length [example_record, unmatched_record]" by simp
  have o: "options ([example_record, unmatched_record] ! 1) = [''a) Rome'', ''b) Paris'']"
    by (simp add: unmatched_record_def)
  show ?thesis
    using item_structure [OF d i] s c d unfolding o by simp
qed

text \<open>
  C10. Every record of a successful parse has at least two options, and the number \<open>k\<close>
  of its "correct" condition lies between 1 and the number of its options; in a document
  the serializer returns for the parsed records, the \<open>response_label\<close> at position \<open>k\<close>
  of the same item exists and carries the very identifier the \<open>varequal\<close> text names.
\<close>

theorem correct_condition_names_existing_label:
  assumes "parse_guided_format text sep opt_rx ap ep = Inr questions"
    and "create_qti_bytes questions points = Inr doc"
    and "i < length questions"
  shows "2 \<le> length (options (questions ! i))
         \<and> 1 \<le> correct_option_id (questions ! i)
         \<and> correct_option_id (questions ! i) \<le> length (options (questions ! i))
         \<and> correct_varequal_text (children doc ! i)
             = [Some (''option'' @ str_nat (correct_option_id (questions ! i)))]
         \<and> correct_option_id (questions ! i) - 1 < length (response_labels (children doc ! i))
         \<and> attr (response_labels (children doc ! i) ! (correct_option_id (questions ! i) - 1))
               ''ident''
             = Some (''option'' @ str_nat (correct_option_id (questions ! i)))"
proof -
  let ?q = "questions ! i"
  from assms(1) have "parse_blocks opt_rx ap ep 1 (question_blocks sep text) [] = Inr questions"
    by (simp add: parse_guided_format_def split: sum.splits if_splits)
  then have "\<forall>q\<in>set questions. 2 \<le> length (options q) \<and> answer q \<noteq> [] \<and> explanation q \<noteq> []"
    by (rule parse_blocks_Inr_invariant) simp
  with assms(3) have two: "2 \<le> length (options ?q)" by simp
  then have "options ?q \<noteq> []" by auto
  then have r: "1 \<le> correct_option_id ?q" "correct_option_id ?q \<le> length (options ?q)"
    using correct_option_id_range by blast+
  then have lt: "correct_option_id ?q - 1 < length (options ?q)" by arith
  have it: "children doc ! i = item_tree points (i, ?q)"
    using assms(2,3) by (rule children_create_qti_bytes)
  have "attr (response_labels (item_tree points (i, ?q)) ! (correct_option_id ?q - 1)) ''ident''
      = Some (''option'' @ str_nat (Suc (correct_option_id ?q - 1)))"
    using lt by (simp add: response_labels_item_nth response_label_parts)
  moreover have "Suc (correct_option_id ?q - 1) = correct_option_id ?q" using r by arith
  ultimately show ?thesis
    using two r lt by (simp add: it correct_varequal_text_item length_response_labels_item)
qed

theorem correct_condition_names_existing_label_witness:
  "parse_guided_format example_text QuestionLabel LowerOpt ''Answer:'' ''Explanation:''
     = Inr [example_record]
   \<and> create_qti_bytes [example_record] ''1.0''
     = Inr (Element ''questestinterop'' [] None [item_tree ''1.0'' (0, example_record)])
   \<and> correct_option_id example_record = 2
   \<and> attr (response_labels (item_tree ''1.0'' (0, example_record)) ! 1) ''ident''
     = Some ''option2''"
proof -
  have p: "parse_guided_format example_text QuestionLabel LowerOpt ''Answer:'' ''Explanation:''
      = Inr [example_record]" by code_simp
  have d: "create_qti_bytes [example_record] ''1.0''
      = Inr (Element ''questestinterop'' [] None [item_tree ''1.0'' (0, example_record)])"
    by code_simp
  have i: "0 < length [example_record]" by simp
  have k: "correct_option_id example_record = 2" by code_simp
  have s: "str_nat 2 = ''2''" by code_simp
  show ?thesis
    using correct_condition_names_existing_label [OF p d i] p d k s by simp
qed

section \<open>Blocks of a text that is not blank\<close>

lemma strip_eq_Nil: "(strip s = []) = (\<forall>c\<in>set s. isspace c)"
proof
  assume "strip s = []"
  then have "\<forall>c\<in>set (dropWhile isspace s). isspace c"
    by (simp add: strip_def dropWhile_eq_Nil_conv)
  then have "dropWhile isspace s = []"
    using hd_dropWhile [of isspace s] hd_in_set [of "dropWhile isspace s"] by blast
  then show "\<forall>c\<in>set s. isspace c" by (simp add: dropWhile_eq_Nil_conv)
next
  assume "\<forall>c\<in>set s. isspace c"
  then show "strip s = []" by (auto simp: strip_def dropWhile_eq_Nil_conv dest: set_dropWhileD)
qed

lemma strip_hd: "strip s \<noteq> [] \<Longrightarrow> \<not> isspace (hd (strip s))"
proof -
  assume a: "strip s \<noteq> []"
  let ?d = "dropWhile isspace s"
  have d: "?d \<noteq> []" using a by (auto simp: strip_def dest: set_dropWhileD)
  have r: "dropWhile isspace (rev ?d) \<noteq> []" using a by (simp add: strip_def)
  have "\<not> isspace (hd ?d)" using d by (rule hd_dropWhile)
  then have "\<not> isspace (last (rev ?d))" using d by (simp add: last_rev)
  have "strip s = rev (dropWhile isspace (rev ?d))" by (simp add: strip_def)
  also have "hd \<dots> = last (dropWhile isspace (rev ?d))" using r by (simp add: hd_rev)
  also have "\<dots> = last (rev ?d)"
    using r by (metis append_Nil2 last_appendR takeWhile_dropWhile_id)
  also have "\<dots> = hd ?d" using d by (simp add: last_rev)
  finally show ?thesis using \<open>\<not> isspace (hd ?d)\<close> by simp
qed

lemma strip_last: "strip s \<noteq> [] \<Longrightarrow> \<not> isspace (last (strip s))"
proof -
  assume a: "strip s \<noteq> []"
  let ?d = "dropWhile isspace s"
  have r: "dropWhile isspace (rev ?d) \<noteq> []" using a by (simp add: strip_def)
  have "last (strip s) = hd (dropWhile isspace (rev ?d))"
    using r by (simp add: strip_def last_rev)
  then show ?thesis using hd_dropWhile [OF r] by simp
qed


lemma isspace_NL: "isspace NL"
  by (simp add: isspace_def)

lemma sep_match_rest:
  assumes "sep_match sep cs = Some n" and "cs = [] \<or> \<not> isspace (last cs)"
  shows "\<exists>w c r. drop n cs = w @ c # r \<and> \<not> isspace c \<and> NL \<notin> set w"
proof (cases sep)
  case Bold
  with assms(1) have n: "n = 0" and "startswith cs ''**''"
    by (auto simp: sep_match_def split: if_splits)
  then obtain r where "cs = STAR # r"
    by (cases cs) (auto simp: startswith_def)
  then have "drop n cs = [] @ STAR # r \<and> \<not> isspace STAR \<and> NL \<notin> set []"
    using n by (simp add: isspace_def)
  then show ?thesis by blast
next
  case QuestionLabel
  with assms(1) have n: "n = 0" and "startswith cs ''Question''"
    by (auto simp: sep_match_def Let_def split: if_splits)
  then obtain r where "cs = CHR ''Q'' # r"
    by (cases cs) (auto simp: startswith_def)
  then have "drop n cs = [] @ CHR ''Q'' # r \<and> \<not> isspace (CHR ''Q'') \<and> NL \<notin> set []"
    using n by (simp add: isspace_def)
  then show ?thesis by blast
next
  case Newline
  define run where "run = takeWhile isspace cs"
  define d where "d = dropWhile isspace cs"
  define A where "A = rev (dropWhile (\<lambda>c. c \<noteq> NL) (rev run))"
  define B where "B = rev (takeWhile (\<lambda>c. c \<noteq> NL) (rev run))"
  from assms(1) Newline have nl: "NL \<in> set run" and n: "n = length run - length B"
    by (auto simp: sep_match_def Let_def run_def B_def split: if_splits)
  have cs: "cs = run @ d" by (simp add: run_def d_def)
  have "cs \<noteq> []" using nl cs by auto
  with assms(2) have "\<not> isspace (last cs)" by simp
  have "d \<noteq> []"
  proof
    assume "d = []"
    then have "\<forall>c\<in>set cs. isspace c" by (simp add: d_def dropWhile_eq_Nil_conv)
    with \<open>cs \<noteq> []\<close> \<open>\<not> isspace (last cs)\<close> show False using last_in_set by blast
  qed
  then obtain c r where d: "d = c # r" by (cases d) auto
  have "\<not> isspace (hd d)" unfolding d_def using \<open>d \<noteq> []\<close> [unfolded d_def] by (rule hd_dropWhile)
  then have c: "\<not> isspace c" by (simp add: d)
  have "rev run = rev B @ rev A" by (simp add: A_def B_def)
  then have run: "run = A @ B" by (metis rev_append rev_rev_ident)
  then have "length A = n" by (simp add: n)
  then have "drop n cs = B @ c # r" by (simp add: cs run d)
  moreover have "NL \<notin> set B" by (auto simp: B_def dest: set_takeWhileD)
  ultimately show ?thesis using c by blast
qed

lemma re_split_nonblank:
  "rest = [] \<or> \<not> isspace (last rest) \<Longrightarrow>
   (\<exists>c\<in>set cur. \<not> isspace c) \<or> (\<exists>w c r. rest = w @ c # r \<and> \<not> isspace c \<and> NL \<notin> set w) \<Longrightarrow>
   \<forall>b\<in>set (re_split sep cur rest). \<exists>c\<in>set b. \<not> isspace c"
proof (induction "length rest" arbitrary: rest cur rule: less_induct)
  case less
  show ?case
  proof (cases rest)
    case Nil
    with less.prems show ?thesis by simp
  next
    case (Cons x xs)
    have tail_last: "xs = [] \<or> \<not> isspace (last xs)"
      using less.prems(1) Cons by (auto split: if_splits)
    have start: "(\<exists>c\<in>set cur. \<not> isspace c)
        \<or> (\<exists>w c r. x # xs = w @ c # r \<and> \<not> isspace c \<and> NL \<notin> set w)"
      using less.prems(2) unfolding Cons .
    show ?thesis
    proof (cases "x = NL")
      case True
      have no: "\<not> (\<exists>w c r. x # xs = w @ c # r \<and> \<not> isspace c \<and> NL \<notin> set w)"
      proof
        assume "\<exists>w c r. x # xs = w @ c # r \<and> \<not> isspace c \<and> NL \<notin> set w"
        then obtain w c r where w: "x # xs = w @ c # r" "\<not> isspace c" "NL \<notin> set w" by blast
        show False
        proof (cases w)
          case Nil
          with w True have "c = NL" by simp
          with w(2) show False by (simp add: isspace_NL)
        next
          case (Cons a w')
          with w True show False by simp
        qed
      qed
      have cur: "\<exists>c\<in>set cur. \<not> isspace c"
      proof (rule ccontr)
        assume "\<not> (\<exists>c\<in>set cur. \<not> isspace c)"
        with start have "\<exists>w c r. x # xs = w @ c # r \<and> \<not> isspace c \<and> NL \<notin> set w"
          by simp
        with no show False ..
      qed
      show ?thesis
      proof (cases "sep_match sep xs")
        case None
        have "\<forall>b\<in>set (re_split sep (cur @ [x]) xs). \<exists>c\<in>set b. \<not> isspace c"
        proof (rule less.hyps)
          show "length xs < length rest" using Cons by simp
          show "xs = [] \<or> \<not> isspace (last xs)" by (rule tail_last)
          from cur have "\<exists>c\<in>set (cur @ [x]). \<not> isspace c" by auto
          then show "(\<exists>c\<in>set (cur @ [x]). \<not> isspace c)
              \<or> (\<exists>w c r. xs = w @ c # r \<and> \<not> isspace c \<and> NL \<notin> set w)" ..
        qed
        with True None Cons show ?thesis by simp
      next
        case (Some n)
        from sep_match_rest [OF Some tail_last]
        have ex: "\<exists>w c r. drop n xs = w @ c # r \<and> \<not> isspace c \<and> NL \<notin> set w" .
        then have "drop n xs \<noteq> []" by auto
        then have "last (drop n xs) = last xs" by simp
        moreover have "xs \<noteq> []" using \<open>drop n xs \<noteq> []\<close> by auto
        ultimately have dl: "drop n xs = [] \<or> \<not> isspace (last (drop n xs))"
          using tail_last by simp
        have "\<forall>b\<in>set (re_split sep [] (drop n xs)). \<exists>c\<in>set b. \<not> isspace c"
        proof (rule less.hyps)
          show "length (drop n xs) < length rest" using Cons by simp
          show "drop n xs = [] \<or> \<not> isspace (last (drop n xs))" by (rule dl)
          show "(\<exists>c\<in>set []. \<not> isspace c)
              \<or> (\<exists>w c r. drop n xs = w @ c # r \<and> \<not> isspace c \<and> NL \<notin> set w)"
            using ex ..
        qed
        with True Some cur Cons show ?thesis by simp
      qed
    next
      case False
      have step: "(\<exists>c\<in>set (cur @ [x]). \<not> isspace c)
          \<or> (\<exists>w c r. xs = w @ c # r \<and> \<not> isspace c \<and> NL \<notin> set w)"
      proof (cases "\<exists>c\<in>set cur. \<not> isspace c")
        case True
        then have "\<exists>c\<in>set (cur @ [x]). \<not> isspace c" by auto
        then show ?thesis ..
      next
        case False
        with start have "\<exists>w c r. x # xs = w @ c # r \<and> \<not> isspace c \<and> NL \<notin> set w"
          by simp
        then obtain w c r where
          w: "x # xs = w @ c # r" "\<not> isspace c" "NL \<notin> set w" by blast
        show ?thesis
        proof (cases w)
          case Nil
          with w have "x = c" by simp
          with w(2) have "\<exists>c\<in>set (cur @ [x]). \<not> isspace c" by simp
          then show ?thesis ..
        next
          case (Cons a w')
          with w have "xs = w' @ c # r" "NL \<notin> set w'" by simp_all
          with w(2) show ?thesis by blast
        qed
      qed
      have "\<forall>b\<in>set (re_split sep (cur @ [x]) xs). \<exists>c\<in>set b. \<not> isspace c"
      proof (rule less.hyps)
        show "length xs < length rest" using Cons by simp
        show "xs = [] \<or> \<not> isspace (last xs)" by (rule tail_last)
        show "(\<exists>c\<in>set (cur @ [x]). \<not> isspace c)
            \<or> (\<exists>w c r. xs = w @ c # r \<and> \<not> isspace c \<and> NL \<notin> set w)" by (rule step)
      qed
      with False Cons show ?thesis by simp
    qed
  qed
qed

lemma question_blocks_nonblank:
  assumes "strip text \<noteq> []"
  shows "\<forall>b\<in>set (question_blocks sep text). strip b \<noteq> []"
proof -
  from assms obtain c r where s: "strip text = c # r" by (cases "strip text") auto
  have "\<not> isspace c" using strip_hd [OF assms] by (simp add: s)
  then have "strip text = [] @ c # r \<and> \<not> isspace c \<and> NL \<notin> set []"
    using s by simp
  then have "\<exists>w c' r'. strip text = w @ c' # r' \<and> \<not> isspace c' \<and> NL \<notin> set w"
    by blast
  moreover have "strip text = [] \<or> \<not> isspace (last (strip text))"
    using strip_last [OF assms] by simp
  ultimately have "\<forall>b\<in>set (re_split sep [] (strip text)). \<exists>c\<in>set b. \<not> isspace c"
    by (intro re_split_nonblank) blast+
  then show ?thesis by (simp add: question_blocks_def strip_eq_Nil)
qed

lemma question_blocks_blank:
  "strip text = [] \<Longrightarrow> question_blocks sep text = [[]]"
  by (simp add: question_blocks_def)

section \<open>Failures of the parser\<close>

lemma violation_cases:
  "violation opt_rx ap ep idx raw
     \<in> {NotEnoughOptions idx (clean_question_line (hd (split_nl (strip raw)))),
        MissingAnswer idx (clean_question_line (hd (split_nl (strip raw)))),
        MissingExplanation idx (clean_question_line (hd (split_nl (strip raw))))}"
  by (simp add: violation_def Let_def split: prod.splits)

lemma parse_blocks_Inl_not_structural:
  "parse_blocks opt_rx ap ep idx bs acc \<noteq> Inl NoValidQuestions"
proof (induction bs arbitrary: idx acc)
  case Nil
  then show ?case by simp
next
  case (Cons b bs)
  show ?case
  proof (cases "violating opt_rx ap ep b")
    case True
    have "violation opt_rx ap ep idx b \<noteq> NoValidQuestions"
      using violation_cases [of opt_rx ap ep idx b] by auto
    with True show ?thesis by (simp add: parse_block_violation)
  next
    case False
    show ?thesis
    proof (cases "parse_block opt_rx ap ep idx b")
      case (Inl e)
      with False show ?thesis using parse_block_not_violating by blast
    next
      case (Inr r)
      then show ?thesis using Cons.IH by (cases r) simp_all
    qed
  qed
qed



lemma strip_Nil: "strip [] = []"
  by (simp add: strip_def)

lemma re_split_nonempty: "re_split sep cur rest \<noteq> []"
  by (induction sep cur rest rule: re_split.induct) (auto split: option.splits)

lemma parse_guided_format_blank:
  "strip text = [] \<Longrightarrow> parse_guided_format text sep opt_rx ap ep = Inl NoValidQuestions"
  by (simp add: parse_guided_format_def question_blocks_blank parse_block_blank strip_Nil)

lemma parse_guided_format_structural:
  assumes "parse_guided_format text sep opt_rx ap ep = Inl NoValidQuestions"
  shows "strip text = []"
proof (rule ccontr)
  assume nb: "strip text \<noteq> []"
  let ?bs = "question_blocks sep text"
  from assms have "parse_blocks opt_rx ap ep 1 ?bs [] = Inr []"
    using parse_blocks_Inl_not_structural [of opt_rx ap ep 1 ?bs "[]"]
    by (cases "parse_blocks opt_rx ap ep 1 ?bs []")
      (auto simp: parse_guided_format_def split: if_splits)
  then have "\<forall>b\<in>set ?bs. strip b = []" by (rule parse_blocks_Inr_Nil)
  moreover have "\<forall>b\<in>set ?bs. strip b \<noteq> []" using nb by (rule question_blocks_nonblank)
  moreover have "?bs \<noteq> []" by (simp add: question_blocks_def re_split_nonempty)
  ultimately show False by (cases ?bs) auto
qed

text \<open>
  C7. When the loop over the blocks ends without an error and without a record, which is
  the case when every block is skipped as blank, the parse fails with the structural
  error; that error is raised exactly for a blank text. Its message differs from the
  message of every validation error, whatever index and question text that one carries.
  So a parse that succeeds returns at least one record.
\<close>

theorem no_questions_is_structural_failure:
  "(parse_blocks opt_rx ap ep 1 (question_blocks sep text) [] = Inr []
      \<longrightarrow> parse_guided_format text sep opt_rx ap ep = Inl NoValidQuestions)
   \<and> ((\<forall>b\<in>set (question_blocks sep text). strip b = [])
      \<longrightarrow> parse_guided_format text sep opt_rx ap ep = Inl NoValidQuestions)
   \<and> (parse_guided_format text sep opt_rx ap ep = Inl NoValidQuestions) = (strip text = [])
   \<and> (parse_guided_format text sep opt_rx ap ep = Inr questions \<longrightarrow> questions \<noteq> [])
   \<and> error_message NoValidQuestions \<noteq> error_message (NotEnoughOptions idx question_text)
   \<and> error_message NoValidQuestions \<noteq> error_message (MissingAnswer idx question_text)
   \<and> error_message NoValidQuestions \<noteq> error_message (MissingExplanation idx question_text)"
proof (intro conjI impI)
  assume "parse_blocks opt_rx ap ep 1 (question_blocks sep text) [] = Inr []"
  then show "parse_guided_format text sep opt_rx ap ep = Inl NoValidQuestions"
    by (simp add: parse_guided_format_def)
next
  assume "\<forall>b\<in>set (question_blocks sep text). strip b = []"
  then have "parse_blocks opt_rx ap ep 1 (question_blocks sep text) [] = Inr []"
    by (rule parse_blocks_all_blank)
  then show "parse_guided_format text sep opt_rx ap ep = Inl NoValidQuestions"
    by (simp add: parse_guided_format_def)
next
  show "(parse_guided_format text sep opt_rx ap ep = Inl NoValidQuestions) = (strip text = [])"
    using parse_guided_format_structural parse_guided_format_blank by blast
next
  assume "parse_guided_format text sep opt_rx ap ep = Inr questions"
  then show "questions \<noteq> []"
    by (auto simp: parse_guided_format_def split: sum.splits if_splits)
next
  show "error_message NoValidQuestions \<noteq> error_message (NotEnoughOptions idx question_text)"
    by (simp add: error_message_def)
next
  show "error_message NoValidQuestions \<noteq> error_message (MissingAnswer idx question_text)"
    by (simp add: error_message_def)
next
  show "error_message NoValidQuestions \<noteq> error_message (MissingExplanation idx question_text)"
    by (simp add: error_message_def)
qed

theorem no_questions_is_structural_failure_witness:
  "parse_guided_format ''  '' Newline LowerOpt ''Answer:'' ''Explanation:'' = Inl NoValidQuestions
   \<and> parse_guided_format example_text Newline LowerOpt ''Answer:'' ''Explanation:''
       = Inr [example_record]
   \<and> [example_record] \<noteq> []"
proof -
  have b: "\<forall>b\<in>set (question_blocks Newline ''  ''). strip b = []" by code_simp
  have p: "parse_guided_format example_text Newline LowerOpt ''Answer:'' ''Explanation:''
       = Inr [example_record]" by code_simp
  show ?thesis
    using no_questions_is_structural_failure
      [of LowerOpt "''Answer:''" "''Explanation:''" Newline "''  ''"] b
      no_questions_is_structural_failure
      [of LowerOpt "''Answer:''" "''Explanation:''" Newline example_text "[example_record]"] p
    by simp
qed

section \<open>Classification of the lines\<close>

text \<open>
  C5, as the code has it. The answer of a block is set by the last line that sets one. When
  the block yields a record, and a line \<open>l\<close> after the question line is taken by the
  answer branch (it starts with the answer prefix, case-insensitively, and is not an
  option line), and no line after \<open>l\<close> is starred or taken by the answer branch, then the
  record's answer is the value of \<open>l\<close>: the text behind the prefix, stripped, without its
  leading option marker, stripped again. Starred lines before \<open>l\<close> do not matter.
\<close>

theorem last_answer_line_wins:
  assumes "parse_block opt_rx ap ep idx raw = Inr (Some q)"
    and "split_nl (strip raw) = line0 # pre @ l # post"
    and "is_answer_line opt_rx ap l"
    and "\<forall>l'\<in>set post. \<not> is_starred l' \<and> \<not> is_answer_line opt_rx ap l'"
  shows "answer q = answer_line_value ap l"
proof -
  have nb: "strip raw \<noteq> []"
    using assms(1) by (auto simp: parse_block_blank)
  from assms(1) obtain r where
    "validate idx (clean_question_line (hd (split_nl (strip raw))))
       (scan_lines opt_rx ap ep (tl (split_nl (strip raw)))) = Inr r" and "r = q"
    by (auto simp: parse_block_nonblank [OF nb] split: sum.splits)
  then have "scan_lines opt_rx ap ep (tl (split_nl (strip raw)))
      = (options q, Some (answer q), Some (explanation q))"
    using validate_Inr_fields by blast
  then have "fst (snd (scan_lines opt_rx ap ep (pre @ l # post))) = Some (answer q)"
    by (simp add: assms(2))
  with scan_lines_last_answer [OF assms(3,4), of ep pre] show ?thesis by simp
qed

theorem last_answer_line_wins_witness:
  "parse_block LowerOpt ''Answer:'' ''Explanation:'' 1 answer_after_starred_block
     = Inr (Some \<lparr> question = ''What is 2+2?'', options = [''a) 3'', ''b) 4''],
                    answer = ''4'', explanation = ''2+2 is 4.'' \<rparr>)
   \<and> is_starred ''*a) 3'' \<and> is_option_line LowerOpt ''*a) 3''
   \<and> answer_line_value ''Answer:'' ''Answer: b) 4'' = ''4''"
proof -
  let ?q = "\<lparr> question = ''What is 2+2?'', options = [''a) 3'', ''b) 4''],
              answer = ''4'', explanation = ''2+2 is 4.'' \<rparr>"
  have p: "parse_block LowerOpt ''Answer:'' ''Explanation:'' 1 answer_after_starred_block
      = Inr (Some ?q)" by code_simp
  have s: "split_nl (strip answer_after_starred_block)
      = ''Question 1: What is 2+2?'' # [''*a) 3'', ''b) 4''] @ ''Answer: b) 4'' # [''Explanation: 2+2 is 4.'']"
    by code_simp
  have a: "is_answer_line LowerOpt ''Answer:'' ''Answer: b) 4''" by code_simp
  have n: "\<forall>l'\<in>set [''Explanation: 2+2 is 4.''].
      \<not> is_starred l' \<and> \<not> is_answer_line LowerOpt ''Answer:'' l'" by code_simp
  have st: "is_starred ''*a) 3''" "is_option_line LowerOpt ''*a) 3''" by code_simp+
  from last_answer_line_wins [OF p s a n]
  have "answer_line_value ''Answer:'' ''Answer: b) 4'' = ''4''" by simp
  with p st show ?thesis by simp
qed

text \<open>
  C5, as the claim states it, fails when the starred option comes after the answer line:
  here the answer line says \<open>a) 3\<close>, its value is \<open>3\<close>, and the starred option \<open>*b) 4\<close>
  below it leaves the record with the answer \<open>4\<close>.
\<close>

theorem starred_option_after_answer_line_counterexample:
  "parse_guided_format starred_after_answer_text QuestionLabel LowerOpt ''Answer:'' ''Explanation:''
     = Inr [\<lparr> question = ''What is 2+2?'', options = [''a) 3'', ''b) 4''],
               answer = ''4'', explanation = ''2+2 is 4.'' \<rparr>]
   \<and> split_nl starred_after_answer_text
     = [''Question 1: What is 2+2?'', ''a) 3'', ''Answer: a) 3'', ''*b) 4'',
        ''Explanation: 2+2 is 4.'']
   \<and> is_starred ''*b) 4'' \<and> is_option_line LowerOpt ''*b) 4''
   \<and> startswith (lower ''Answer: a) 3'') (lower ''Answer:'')
   \<and> answer_line_value ''Answer:'' ''Answer: a) 3'' = ''3''"
  by code_simp

text \<open>
  C6. A line that is not blank, whose text without leading asterisks matches the option
  pattern, and that also starts with the answer prefix (case-insensitively), is taken by
  the option branch: its text without the asterisks is appended to the options, the
  explanation stays, and the answer stays too unless the line is starred, in which case
  the answer becomes the marker-stripped option text (the star rule, not the value the
  answer branch would store).
\<close>

theorem option_pattern_checked_first:
  assumes "is_option_line opt_rx raw"
    and "startswith (lower (strip raw)) (lower ap)"
  shows "scan_line opt_rx ap ep (opts, ans, expl) raw
           = (opts @ [strip (dropWhile (\<lambda>c. c = STAR) (strip raw))],
              (if is_starred raw
               then Some (clean_option (strip (dropWhile (\<lambda>c. c = STAR) (strip raw))))
               else ans),
              expl)"
  using assms(1) by (rule scan_line_option)

theorem option_pattern_checked_first_witness:
  "scan_line UpperOpt ''A'' ''Explanation:'' ([''B) pear''], None, None) ''A) apple''
     = ([''B) pear'', ''A) apple''], None, None)
   \<and> scan_line UpperOpt ''A'' ''Explanation:'' ([''B) pear''], None, None) ''Apple''
     = ([''B) pear''], Some ''pple'', None)"
proof -
  have o: "is_option_line UpperOpt ''A) apple''" by code_simp
  have a: "startswith (lower (strip ''A) apple'')) (lower ''A'')" by code_simp
  have c: "strip (dropWhile (\<lambda>c. c = STAR) (strip ''A) apple'')) = ''A) apple''" by code_simp
  have s: "\<not> is_starred ''A) apple''" by code_simp
  have n: "scan_line UpperOpt ''A'' ''Explanation:'' ([''B) pear''], None, None) ''Apple''
     = ([''B) pear''], Some ''pple'', None)" by code_simp
  show ?thesis
    using option_pattern_checked_first [OF o a, of "''Explanation:''" "[''B) pear'']" None None]
      c s n by simp
qed

end
